theory Spec2Isabelle
  imports Main "HOL-Library.Multiset"
begin

section \<open>JavaScript values used by the client\<close>

text \<open>
  A JavaScript string is modelled as a \<^typ>\<open>string\<close> whose characters are the code
  units below 256 (Latin-1). A value that may be \<open>undefined\<close> is an \<^typ>\<open>'a option\<close>.
  An \<open>Error\<close> object is its message (for a file-system error, its code).
\<close>

datatype jserror = Error string | TypeError string

definition startsWith :: "string \<Rightarrow> string \<Rightarrow> bool" where
  \<comment> \<open>\<open>s.startsWith(p)\<close>\<close>
  "startsWith p s = (take (length p) s = p)"

definition endsWith :: "string \<Rightarrow> string \<Rightarrow> bool" where
  \<comment> \<open>\<open>s.endsWith(p)\<close>\<close>
  "endsWith p s = (length p \<le> length s \<and> drop (length s - length p) s = p)"

definition slice :: "nat \<Rightarrow> nat \<Rightarrow> string \<Rightarrow> string" where
  \<comment> \<open>\<open>s.slice(a, b)\<close> for non-negative indices\<close>
  "slice a b s = drop a (take b s)"

definition slice_from :: "nat \<Rightarrow> string \<Rightarrow> string" where
  \<comment> \<open>\<open>s.slice(a)\<close> for a non-negative index\<close>
  "slice_from a s = drop a s"

definition lower_char :: "char \<Rightarrow> char" where
  \<comment> \<open>\<open>toLowerCase\<close> on one code unit below 256: A-Z, and the Latin-1 capitals
      U+00C0 to U+00DE without the multiplication sign U+00D7, move up by 32.\<close>
  "lower_char c =
     (let n = of_char c :: nat
      in if (65 \<le> n \<and> n \<le> 90) \<or> (192 \<le> n \<and> n \<le> 222 \<and> n \<noteq> 215)
         then char_of (n + 32) else c)"

definition toLowerCase :: "string \<Rightarrow> string" where
  "toLowerCase s = map lower_char s"

section \<open>Node's \<open>path\<close> module (POSIX flavour), as far as the client calls it\<close>

definition basename :: "string \<Rightarrow> string" where
  \<comment> \<open>\<open>path.basename(p)\<close>: trailing separators are dropped, then everything up to
      the last separator.\<close>
  "basename p = rev (takeWhile (\<lambda>c. c \<noteq> CHR ''/'') (dropWhile (\<lambda>c. c = CHR ''/'') (rev p)))"

fun split_sep :: "string \<Rightarrow> string list" where
  \<comment> \<open>the segments between separators, empty ones included\<close>
  "split_sep [] = [[]]"
| "split_sep (c # cs) =
     (if c = CHR ''/'' then [] # split_sep cs
      else (case split_sep cs of [] \<Rightarrow> [[c]] | s # ss \<Rightarrow> (c # s) # ss))"

fun join_sep :: "string list \<Rightarrow> string" where
  "join_sep [] = []"
| "join_sep [s] = s"
| "join_sep (s # t # ss) = s @ ''/'' @ join_sep (t # ss)"

definition normalize_step :: "bool \<Rightarrow> string list \<Rightarrow> string \<Rightarrow> string list" where
  \<comment> \<open>one segment of \<open>normalizeString\<close>; the segments kept so far are a stack, last
      segment first\<close>
  "normalize_step allowAboveRoot res seg =
     (if seg = [] \<or> seg = ''.'' then res
      else if seg = ''..'' then
        (case res of
           [] \<Rightarrow> if allowAboveRoot then [''..''] else []
         | seg0 # below \<Rightarrow>
             if seg0 = ''..'' then (if allowAboveRoot then ''..'' # res else res) else below)
      else seg # res)"

definition normalizeString :: "string \<Rightarrow> bool \<Rightarrow> string" where
  "normalizeString p allowAboveRoot =
     join_sep (rev (foldl (normalize_step allowAboveRoot) [] (split_sep p)))"

definition isAbsolute :: "string \<Rightarrow> bool" where
  "isAbsolute p = (p \<noteq> [] \<and> hd p = CHR ''/'')"

definition normalize :: "string \<Rightarrow> string" where
  \<comment> \<open>\<open>path.normalize\<close>\<close>
  "normalize p =
     (if p = [] then ''.''
      else
        let trailingSeparator = (last p = CHR ''/'');
            q = normalizeString p (\<not> isAbsolute p)
        in if q = [] then (if isAbsolute p then ''/'' else if trailingSeparator then ''./'' else ''.'')
           else (if isAbsolute p then ''/'' else []) @ q @ (if trailingSeparator then ''/'' else []))"

definition path_join :: "string list \<Rightarrow> string" where
  \<comment> \<open>\<open>path.join(...)\<close>: the non-empty arguments, joined by the separator and normalized\<close>
  "path_join args =
     (case filter (\<lambda>a. a \<noteq> []) args of
        [] \<Rightarrow> ''.''
      | a # as \<Rightarrow> normalize (join_sep (a # as)))"

fun resolve_args :: "string list \<Rightarrow> string \<Rightarrow> string" where
  \<comment> \<open>the right-to-left loop of \<open>path.resolve\<close>: the arguments are given last first and
      end with the working directory; it stops at the first absolute one\<close>
  "resolve_args [] resolved = resolved"
| "resolve_args (p # ps) resolved =
     (if p = [] then resolve_args ps resolved
      else if isAbsolute p then p @ ''/'' @ resolved
      else resolve_args ps (p @ ''/'' @ resolved))"

definition path_resolve :: "string \<Rightarrow> string list \<Rightarrow> string" where
  \<comment> \<open>\<open>path.resolve(...)\<close> in the working directory \<open>cwd\<close>\<close>
  "path_resolve cwd args =
     (let resolved = resolve_args (rev args @ [cwd]) [];
          q = normalizeString resolved (\<not> isAbsolute resolved)
      in if isAbsolute resolved then ''/'' @ q
         else if q = [] then ''.'' else q)"

section \<open>Home-directory expansion\<close>

text \<open>
  \<open>expandHomeDir\<close> (create.js, lines 87 to 93). \<open>homedir\<close> is the value of the
  environment variable (\<open>HOME\<close>, or \<open>USERPROFILE\<close> on win32), undefined when the
  variable is not set; \<open>path.join\<close> throws a \<open>TypeError\<close> on an argument that is
  not a string.
\<close>

definition expandHomeDir :: "string option \<Rightarrow> string option \<Rightarrow> jserror + string option" where
  "expandHomeDir homedir pathIn =
     (case pathIn of
        None \<Rightarrow> Inr pathIn
      | Some p \<Rightarrow>
          if p = [] then Inr pathIn
          else if p = ''~'' then Inr homedir
          else if slice 0 2 p \<noteq> ''~/'' then Inr pathIn
          else (case homedir of
                  None \<Rightarrow> Inl (TypeError ''Path must be a string'')
                | Some h \<Rightarrow> Inr (Some (path_join [h, slice_from 2 p]))))"

section \<open>The state poller\<close>

text \<open>
  \<open>waitfor\<close> of machines/waitfor.js (lines 108 to 137 of the documented source).
  \<open>method(waitfor, params, _cb)\<close> sends one query to the server and hands its outcome
  to \<open>_cb(err, machine)\<close>. The server is a script of responses, one for each query in
  turn; when the script is used up the last query stays unanswered. What the poller does
  is the list of its events in order: a query sent, a timer armed with its delay in
  milliseconds, the caller's callback invoked.
\<close>

record waitfor_params =
  machineId :: string
  state :: "string option"

record machine =
  machine_id :: string
  machine_state :: "string option"

datatype response = Failed jserror | Answered "machine option"

datatype poll_event =
    Request waitfor_params
  | SetTimeout nat
  | Callback "jserror + machine"

definition INTERVAL :: nat where
  "INTERVAL = 5000"

definition state_matches :: "machine option \<Rightarrow> string \<Rightarrow> bool" where
  \<comment> \<open>\<open>machine && machine.state === targetState\<close>\<close>
  "state_matches mach targetState =
     (case mach of None \<Rightarrow> False | Some m \<Rightarrow> machine_state m = Some targetState)"

fun waitfor :: "waitfor_params \<Rightarrow> response list \<Rightarrow> poll_event list" where
  "waitfor params rs =
     (case state params of
        None \<Rightarrow> [Callback (Inl (Error ''Missing required parameter state''))]
      | Some st \<Rightarrow>
          if st = [] then [Callback (Inl (Error ''Missing required parameter state''))]
          else
            let targetState = toLowerCase st
            in if targetState = ''ready'' \<or> targetState = ''serviceready''
                  \<or> targetState = ''off''
               then Request params #
                 (case rs of
                    [] \<Rightarrow> []
                  | r # rest \<Rightarrow>
                      (case r of
                         Failed err \<Rightarrow> [Callback (Inl err)]
                       | Answered mach \<Rightarrow>
                           if state_matches mach targetState
                           then [Callback (Inr (the mach))]
                           else SetTimeout INTERVAL # waitfor params rest))
               else [Callback
                       (Inl (Error ''state must be either off, serviceready, or ready''))])"

declare waitfor.simps [simp del]

definition requests :: "poll_event list \<Rightarrow> nat" where
  \<comment> \<open>how many queries a run of the poller sent\<close>
  "requests evs = length (filter (\<lambda>e. case e of Request _ \<Rightarrow> True | _ \<Rightarrow> False) evs)"

fun retries :: "string \<Rightarrow> response \<Rightarrow> bool" where
  \<comment> \<open>a response that came back without error and does not show the target state\<close>
  "retries targetState (Failed err) = False"
| "retries targetState (Answered mach) = (\<not> state_matches mach targetState)"

section \<open>The size of a directory tree\<close>

text \<open>
  A JavaScript number that holds a non-negative integer is the natural number it holds.
  The sum of two such numbers is the double nearest to the exact sum, a tie going to the
  even significand: it is exact below \<open>2^53\<close>, and from there on a multiple of the
  spacing of the doubles. A sum from \<open>2^1024\<close> on is \<open>Infinity\<close> in JavaScript, which
  these numbers do not have: the sizes \<open>fs.stat\<close> reports are below \<open>2^64\<close>, and no
  tree that a file system holds adds up to \<open>2^1024\<close>.
\<close>

fun bitlen :: "nat \<Rightarrow> nat" where
  \<comment> \<open>the number of binary digits\<close>
  "bitlen n = (if n = 0 then 0 else Suc (bitlen (n div 2)))"

declare bitlen.simps [simp del]

definition round_double :: "nat \<Rightarrow> nat" where
  "round_double n =
     (if n < 2 ^ 53 then n
      else
        let spacing = 2 ^ (bitlen n - 53);
            q = n div spacing;
            r = n mod spacing
        in if spacing < 2 * r \<or> (2 * r = spacing \<and> odd q) then (q + 1) * spacing
           else q * spacing)"

definition js_add :: "nat \<Rightarrow> nat \<Rightarrow> nat" where
  \<comment> \<open>\<open>a + b\<close> on numbers\<close>
  "js_add a b = round_double (a + b)"

text \<open>
  What \<open>fs.stat\<close> and \<open>fs.readdir\<close> report for a path and, for a directory, for the
  entries below it. A node carries its base name (\<open>path.basename\<close> of the path
  \<open>directorySize\<close> is called with: the parent's path, a separator and the entry's name)
  and the size \<open>stat.size\<close> reports; a directory lists its entries in the order
  \<open>readdir\<close> gives them.
\<close>

datatype fsnode =
    File string nat
  | Dir string nat "fsnode list"
  | NoStat string jserror \<comment> \<open>\<open>fs.stat\<close> reports the error\<close>
  | NoList string nat jserror \<comment> \<open>a directory for which \<open>fs.readdir\<close> reports the error\<close>

definition excluded :: "string \<Rightarrow> bool" where
  \<comment> \<open>\<open>name === '.git' || name === '.gitignore'\<close>\<close>
  "excluded name = (name = ''.git'' \<or> name = ''.gitignore'')"

text \<open>
  \<open>directorySize\<close> (create.js, lines 95 to 132), the callback's arguments as the
  result. \<open>directorySize_map\<close> is \<open>async.map\<close> over the entries with \<open>directorySize\<close>
  as the iteratee, which calls it with an entry and a callback, so that each entry
  starts at size 0. \<open>async.map\<close> starts all entries at once and calls back once: with
  the sizes in the order of the entries when every entry succeeds, else with the error
  that arrives first, which may be the error of any failing entry. A failing run
  therefore results in the errors that may reach the callback, in the order of the
  entries; the callback gets one of them. With an error the callback's second argument,
  a partial sum, is dropped.
\<close>

fun directorySize :: "fsnode \<Rightarrow> nat \<Rightarrow> jserror list + nat"
  and directorySize_map :: "fsnode list \<Rightarrow> jserror list + nat list" where
  "directorySize (File name sz) size0 =
     (if excluded name then Inr size0 else Inr (js_add size0 sz))"
| "directorySize (NoStat name err) size0 =
     (if excluded name then Inr size0 else Inl [err])"
| "directorySize (NoList name sz err) size0 =
     (if excluded name then Inr size0 else Inl [err])"
| "directorySize (Dir name sz paths) size0 =
     (if excluded name then Inr size0
      else (case directorySize_map paths of
              Inl errs \<Rightarrow> Inl errs
            | Inr sizes \<Rightarrow> Inr (js_add (js_add size0 sz) (foldl js_add 0 sizes))))"
| "directorySize_map [] = Inr []"
| "directorySize_map (p # ps) =
     (case directorySize p 0 of
        Inl errs \<Rightarrow>
          (case directorySize_map ps of
             Inl errs' \<Rightarrow> Inl (errs @ errs')
           | Inr ss \<Rightarrow> Inl errs)
      | Inr s \<Rightarrow>
          (case directorySize_map ps of
             Inl errs' \<Rightarrow> Inl errs'
           | Inr ss \<Rightarrow> Inr (s # ss)))"

text \<open>
  The entries of a tree, flat: each with its path from the root (the names on the way,
  the root's first) and its own size. An entry that cannot be stat'ed has no size.
\<close>

fun entries :: "string list \<Rightarrow> fsnode \<Rightarrow> (string list \<times> nat) list" where
  "entries stem (File name sz) = [(stem @ [name], sz)]"
| "entries stem (NoStat name err) = []"
| "entries stem (NoList name sz err) = [(stem @ [name], sz)]"
| "entries stem (Dir name sz paths) =
     (stem @ [name], sz) # concat (map (entries (stem @ [name])) paths)"

fun failures :: "string list \<Rightarrow> fsnode \<Rightarrow> (string list \<times> jserror) list" where
  \<comment> \<open>the entries that cannot be stat'ed or listed, with the error reported\<close>
  "failures stem (File name sz) = []"
| "failures stem (NoStat name err) = [(stem @ [name], err)]"
| "failures stem (NoList name sz err) = [(stem @ [name], err)]"
| "failures stem (Dir name sz paths) = concat (map (failures (stem @ [name])) paths)"

definition unhidden :: "string list \<Rightarrow> bool" where
  \<comment> \<open>no name on the path, the entry's own included, is an excluded name\<close>
  "unhidden path = list_all (\<lambda>name. \<not> excluded name) path"

definition counted_below :: "string list \<Rightarrow> fsnode \<Rightarrow> nat" where
  \<comment> \<open>the sum of the own sizes of the entries, files and directories, that no excluded
      name hides\<close>
  "counted_below stem t =
     sum_list (map snd (filter (\<lambda>e. unhidden (fst e)) (entries stem t)))"

definition failures_below :: "string list \<Rightarrow> fsnode \<Rightarrow> (string list \<times> jserror) list" where
  "failures_below stem t = filter (\<lambda>e. unhidden (fst e)) (failures stem t)"

definition counted_size :: "fsnode \<Rightarrow> nat" where
  "counted_size t = counted_below [] t"

definition visited_failures :: "fsnode \<Rightarrow> (string list \<times> jserror) list" where
  "visited_failures t = failures_below [] t"

text \<open>The size the specification words: the sizes of the files not named in the exclusion set.\<close>

fun files :: "fsnode \<Rightarrow> (string \<times> nat) list" where
  "files (File name sz) = [(name, sz)]"
| "files (NoStat name err) = []"
| "files (NoList name sz err) = []"
| "files (Dir name sz paths) = concat (map files paths)"

definition file_sum :: "fsnode \<Rightarrow> nat" where
  "file_sum t = sum_list (map snd (filter (\<lambda>f. \<not> excluded (fst f)) (files t)))"

text \<open>
  The same tree with its entries listed in another order: at any directory, at any
  depth, the entries may be permuted.
\<close>

inductive reorder :: "fsnode \<Rightarrow> fsnode \<Rightarrow> bool" where
  same: "reorder t t"
| permute: "mset paths' = mset paths \<Longrightarrow> reorder (Dir name sz paths) (Dir name sz paths')"
| inside: "list_all2 reorder paths paths' \<Longrightarrow> reorder (Dir name sz paths) (Dir name sz paths')"
| step: "reorder t u \<Longrightarrow> reorder u v \<Longrightarrow> reorder t v"

section \<open>The archive's glob\<close>

text \<open>
  \<open>archive.glob('**/*', {cwd, ignore, dot: true})\<close> appends every entry below \<open>cwd\<close>
  whose path relative to \<open>cwd\<close> matches the pattern and matches none of the \<open>ignore\<close>
  patterns. Patterns and paths are matched segment by segment, as minimatch does with
  \<open>dot: true\<close>: \<open>**\<close> stands for any number of segments, \<open>*\<close> for one segment, any
  other segment for itself; a pattern never matches the empty path, and a last \<open>**\<close>
  takes at least one segment.
\<close>

datatype gseg = GlobStar | Star | Lit string

definition parse_glob :: "string \<Rightarrow> gseg list" where
  "parse_glob pat =
     map (\<lambda>seg. if seg = ''**'' then GlobStar else if seg = ''*'' then Star else Lit seg)
         (split_sep pat)"

fun glob_match :: "gseg list \<Rightarrow> string list \<Rightarrow> bool" where
  "glob_match [] path = (path = [])"
| "glob_match (g # gs) [] = False"
| "glob_match (GlobStar # gs) (x # xs) =
     (if gs = [] then True
      else glob_match gs (x # xs) \<or> glob_match (GlobStar # gs) xs)"
| "glob_match (Star # gs) (x # xs) = glob_match gs xs"
| "glob_match (Lit s # gs) (x # xs) = (x = s \<and> glob_match gs xs)"

fun descendants :: "string list \<Rightarrow> fsnode \<Rightarrow> string list list" where
  \<comment> \<open>the paths, relative to the root, of the entries below it\<close>
  "descendants stem (Dir name sz paths) =
     concat (map (\<lambda>p. case p of
                     File n _ \<Rightarrow> [stem @ [n]]
                   | NoStat n _ \<Rightarrow> [stem @ [n]]
                   | NoList n _ _ \<Rightarrow> [stem @ [n]]
                   | Dir n _ _ \<Rightarrow> (stem @ [n]) # descendants (stem @ [n]) p) paths)"
| "descendants stem other = []"

definition archive_glob :: "string \<Rightarrow> string list \<Rightarrow> fsnode \<Rightarrow> string list list" where
  "archive_glob pattern ignore root =
     filter (\<lambda>path. glob_match (parse_glob pattern) path
                     \<and> \<not> list_ex (\<lambda>pat. glob_match (parse_glob pat) path) ignore)
            (descendants [] root)"

section \<open>Job creation: packing and uploading the workspace\<close>

text \<open>
  \<open>create\<close> (create.js) from line 256 on, once the parameters are defaulted:
  \<open>params.workspace\<close> is a non-empty string and a container is given. What it does is
  the list of its effects in order. \<open>Method workspace workspaceFileName\<close> is the remote
  invocation \<open>method(create, params, _methodCb)\<close>, with the file it is to upload and
  the file name it passes; what follows it (recording the job, tailing its logs) is not
  part of the model. The progress bar only draws, and is left out; so is
  \<open>directorySize\<close>, whose result it alone uses (\<open>zipFunc\<close> does not look at the error
  argument). Of the synchronous file-system calls, \<open>fs.unlinkSync\<close> on an earlier
  archive may throw, and so may \<open>fs.statSync\<close> on a path that is not there: the
  exception ends \<open>create\<close>.
\<close>

datatype filetype = Directory | RegularFile | Other

datatype archive_event =
    Warning string \<comment> \<open>the archiver's \<open>warning\<close> event, with the error's code\<close>
  | ArchiverError string \<comment> \<open>the archiver's \<open>error\<close> event, with the error's message\<close>
  | OutputClose \<comment> \<open>the output stream's \<open>close\<close> event\<close>

datatype effect =
    ConsoleLog string
  | ConsoleError string
  | Unlink string
  | CreateWriteStream string
  | ArchiveGlob string string "string list" \<comment> \<open>pattern, \<open>cwd\<close>, \<open>ignore\<close>\<close>
  | ArchiveFile string string \<comment> \<open>the file's path, the entry's name\<close>
  | Finalize
  | Method "string option" "string option"
  | Cb "jserror option" \<comment> \<open>\<open>cb()\<close> or \<open>cb(err)\<close>\<close>
  | Throw jserror \<comment> \<open>an exception nothing catches\<close>

record env =
  cli :: bool \<comment> \<open>\<open>global.paperspace_cli && !json\<close>\<close>
  env_home :: "string option" \<comment> \<open>the home directory variable of the environment\<close>
  tmpdir :: string \<comment> \<open>\<open>os.tmpdir()\<close>\<close>
  cwd :: string
  stat :: "string \<Rightarrow> (filetype \<times> nat) option"
    \<comment> \<open>\<open>fs.statSync\<close> when \<open>create\<close> is called: the kind and the size in bytes; nothing
        where \<open>fs.existsSync\<close> is false\<close>
  unlink :: "string \<Rightarrow> jserror option"
    \<comment> \<open>the error \<open>fs.unlinkSync\<close> throws for a path, if it throws\<close>
  events :: "archive_event list" \<comment> \<open>what the archiver and its output emit, in order\<close>
  stat_closed :: "string \<Rightarrow> (filetype \<times> nat) option"
    \<comment> \<open>\<open>fs.statSync\<close> when the output has closed\<close>

definition MAX_UPLOAD_SIZE :: nat where
  "MAX_UPLOAD_SIZE = 104857600"

definition glob_ignore :: "string list" where
  "glob_ignore = [''**/.git/**'', ''**/.git'', ''**/.gitignore'']"

definition message :: "jserror \<Rightarrow> string" where
  "message err = (case err of Error msg \<Rightarrow> msg | TypeError msg \<Rightarrow> msg)"

definition getFilesizeInBytes ::
  "(string \<Rightarrow> (filetype \<times> nat) option) \<Rightarrow> string \<Rightarrow> jserror + nat" where
  "getFilesizeInBytes fs filename =
     (case fs filename of
        None \<Rightarrow> Inl (Error ''ENOENT'')
      | Some stats \<Rightarrow> Inr (snd stats))"

definition ifCliPrintErrorOnly :: "env \<Rightarrow> jserror \<Rightarrow> effect list" where
  "ifCliPrintErrorOnly e err =
     (if cli e then [ConsoleLog (message err), Cb None] else [Cb (Some err)])"

definition size_error :: "string \<Rightarrow> jserror" where
  \<comment> \<open>\<open>'Error: zipped workspace ' + file + ' cannot exceed ' + MAX_UPLOAD_SIZE + ' bytes.'\<close>\<close>
  "size_error file =
     Error (''Error: zipped workspace '' @ file @ '' cannot exceed 104857600 bytes.'')"

definition output_close :: "env \<Rightarrow> string \<Rightarrow> effect list" where
  \<comment> \<open>the handler of the output's \<open>close\<close> event (lines 290 to 307)\<close>
  "output_close e zip_file =
     (case getFilesizeInBytes (stat_closed e) zip_file of
        Inl err \<Rightarrow> [Throw err]
      | Inr n \<Rightarrow>
          if n > MAX_UPLOAD_SIZE then ifCliPrintErrorOnly e (size_error zip_file)
          else [Method (Some zip_file) (Some (basename zip_file))])"

fun archive_run :: "env \<Rightarrow> string \<Rightarrow> archive_event list \<Rightarrow> effect list" where
  \<comment> \<open>the handlers of \<open>warning\<close> (lines 333 to 341), \<open>error\<close> (lines 309 to 311) and
      \<open>close\<close>, run on the events in turn\<close>
  "archive_run e zip_file [] = []"
| "archive_run e zip_file (Warning code # evs) =
     (if code = ''ENOENT'' then ConsoleError code # archive_run e zip_file evs
      else [Throw (Error code)])"
| "archive_run e zip_file (ArchiverError msg # evs) =
     ConsoleError (''Error while zipping: '' @ msg) # archive_run e zip_file evs"
| "archive_run e zip_file (OutputClose # evs) = output_close e zip_file"

definition zipFunc :: "env \<Rightarrow> string \<Rightarrow> filetype \<Rightarrow> string \<Rightarrow> effect list" where
  \<comment> \<open>lines 282 to 356\<close>
  "zipFunc e workspace kind zip_file =
     CreateWriteStream zip_file #
     (if kind = Directory then ArchiveGlob ''**/*'' workspace glob_ignore
      else ArchiveFile workspace (basename workspace)) #
     Finalize #
     archive_run e zip_file (events e)"

definition create :: "env \<Rightarrow> string \<Rightarrow> effect list" where
  "create e workspace0 =
     (if workspace0 = ''/'' then
        ifCliPrintErrorOnly e (Error ''Error: cannot zip workspace from root directory.'')
      else if workspace0 \<noteq> ''none'' \<and> \<not> startsWith ''https://'' workspace0
              \<and> \<not> startsWith ''git+https://'' workspace0 then
        (case expandHomeDir (env_home e) (Some workspace0) of
           Inl err \<Rightarrow> [Throw err]
         | Inr None \<Rightarrow>
             ifCliPrintErrorOnly e (Error ''Error: cannot find workspace file or directory.'')
         | Inr (Some workspace) \<Rightarrow>
             (case stat e workspace of
                None \<Rightarrow>
                  ifCliPrintErrorOnly e
                    (Error ''Error: cannot find workspace file or directory.'')
              | Some stats \<Rightarrow>
                  if fst stats = Other then
                    ifCliPrintErrorOnly e
                      (Error ''Error: workspace is not a file or directory.'')
                  else if \<not> endsWith ''.zip'' workspace \<and> \<not> endsWith ''.gz'' workspace then
                    (let zip_file =
                           path_resolve (cwd e) [tmpdir e, basename workspace @ ''.zip''];
                         pack =
                           (if fst stats \<noteq> Directory \<and> cli e
                            then [ConsoleLog (''Zipping file '' @ basename workspace)] else [])
                           @ zipFunc e workspace (fst stats) zip_file
                     in if stat e zip_file \<noteq> None then
                          (case unlink e zip_file of
                             Some err \<Rightarrow> [Throw err]
                           | None \<Rightarrow> Unlink zip_file # pack)
                        else pack)
                  else
                    (case getFilesizeInBytes (stat e) workspace of
                       Inl err \<Rightarrow> [Throw err]
                     | Inr n \<Rightarrow>
                         if n > MAX_UPLOAD_SIZE then
                           ifCliPrintErrorOnly e (size_error workspace)
                         else [Method (Some workspace) (Some (basename workspace))])))
      else
        [Method None
           (if startsWith ''https://'' workspace0 \<or> startsWith ''git+https://'' workspace0
            then Some workspace0 else None)])"

fun invoked :: "effect list \<Rightarrow> effect list" where
  \<comment> \<open>the remote invocations of a run, whatever they are given\<close>
  "invoked [] = []"
| "invoked (Method file name # effs) = Method file name # invoked effs"
| "invoked (eff # effs) = invoked effs"


fun reaches_close :: "archive_event list \<Rightarrow> bool" where
  \<comment> \<open>the output closes before a handler throws\<close>
  "reaches_close [] = False"
| "reaches_close (Warning code # evs) = (code = ''ENOENT'' \<and> reaches_close evs)"
| "reaches_close (ArchiverError msg # evs) = reaches_close evs"
| "reaches_close (OutputClose # evs) = True"

section \<open>Properties\<close>

subsection \<open>Home-directory expansion\<close>

lemma slice_is_prefix: "slice 0 2 p = ''~/'' \<longleftrightarrow> startsWith ''~/'' p"
  by (simp add: slice_def startsWith_def numeral_2_eq_2)

text \<open>
  C10. The input \<open>~\<close> is replaced by the home directory; an input that begins with
  \<open>~/\<close> becomes the home directory joined with the remainder (the home directory being
  set); every other input, undefined, empty or of the form \<open>~user\<close> included, is
  returned unchanged.
\<close>

theorem expandHomeDir_cases:
  "expandHomeDir homedir (Some ''~'') = Inr homedir
   \<and> expandHomeDir (Some h) (Some (''~/'' @ rest)) = Inr (Some (path_join [h, rest]))
   \<and> (pathIn \<noteq> Some ''~'' \<and> (\<forall>p. pathIn = Some p \<longrightarrow> \<not> startsWith ''~/'' p)
        \<longrightarrow> expandHomeDir homedir pathIn = Inr pathIn)"
proof (intro conjI impI)
  show "expandHomeDir homedir (Some ''~'') = Inr homedir"
    by (simp add: expandHomeDir_def)
  show "expandHomeDir (Some h) (Some (''~/'' @ rest)) = Inr (Some (path_join [h, rest]))"
    by (simp add: expandHomeDir_def slice_def slice_from_def)
next
  assume other: "pathIn \<noteq> Some ''~'' \<and> (\<forall>p. pathIn = Some p \<longrightarrow> \<not> startsWith ''~/'' p)"
  show "expandHomeDir homedir pathIn = Inr pathIn"
  proof (cases pathIn)
    case None
    then show ?thesis by (simp add: expandHomeDir_def)
  next
    case (Some p)
    with other have "p \<noteq> ''~''" and "slice 0 2 p \<noteq> ''~/''"
      by (simp_all add: slice_is_prefix)
    with Some show ?thesis by (simp add: expandHomeDir_def)
  qed
qed

theorem expandHomeDir_cases_witness:
  "expandHomeDir (Some ''/home/u'') (Some ''~'') = Inr (Some ''/home/u'')
   \<and> expandHomeDir (Some ''/home/u'') (Some ''~/proj/../data/'') = Inr (Some ''/home/u/data/'')
   \<and> Some ''~user'' \<noteq> Some ''~'' \<and> \<not> startsWith ''~/'' ''~user''
   \<and> expandHomeDir (Some ''/home/u'') (Some ''~user'') = Inr (Some ''~user'')"
  using expandHomeDir_cases [of "Some ''/home/u''" "''/home/u''" "''proj/../data/''" "Some ''~user''"]
  by (simp add: startsWith_def path_join_def normalize_def normalizeString_def
      normalize_step_def isAbsolute_def)

subsection \<open>The state poller\<close>

lemma lower_off: "toLowerCase ''off'' = ''off''"
  by code_simp

lemma lower_Off: "toLowerCase ''Off'' = ''off''"
  by code_simp

lemma lower_ready: "toLowerCase ''ready'' = ''ready''"
  by code_simp

lemma lower_ServiceReady: "toLowerCase ''ServiceReady'' = ''serviceready''"
  by code_simp

lemma lower_running: "toLowerCase ''running'' = ''running''"
  by code_simp

lemma legal_nonempty:
  "toLowerCase st \<in> {''ready'', ''serviceready'', ''off''} \<Longrightarrow> st \<noteq> []"
  by (auto simp: toLowerCase_def)

text \<open>The poller with a legal target state: one query, then what its response decides.\<close>

lemma waitfor_legal_Nil:
  assumes "state params = Some st" "toLowerCase st \<in> {''ready'', ''serviceready'', ''off''}"
  shows "waitfor params [] = [Request params]"
  using assms legal_nonempty [OF assms(2)] by (auto simp add: waitfor.simps [of params "[]"])

lemma waitfor_legal_Cons:
  assumes "state params = Some st" "toLowerCase st \<in> {''ready'', ''serviceready'', ''off''}"
  shows "waitfor params (r # rest) =
           Request params #
             (case r of
                Failed err \<Rightarrow> [Callback (Inl err)]
              | Answered mach \<Rightarrow>
                  if state_matches mach (toLowerCase st)
                  then [Callback (Inr (the mach))]
                  else SetTimeout INTERVAL # waitfor params rest)"
  using assms legal_nonempty [OF assms(2)]
  by (auto simp add: waitfor.simps [of params "r # rest"] Let_def)

lemma waitfor_illegal:
  assumes "\<forall>st. state params = Some st \<longrightarrow>
             toLowerCase st \<notin> {''ready'', ''serviceready'', ''off''}"
  shows "waitfor params rs =
      [Callback (Inl (Error (if state params = None \<or> state params = Some []
                             then ''Missing required parameter state''
                             else ''state must be either off, serviceready, or ready'')))]"
  using assms by (auto simp add: waitfor.simps [of params rs] Let_def split: option.splits)

text \<open>
  The whole run: one query and one timer for each response of the leading run of
  responses that ask for a retry, then one last query and what its response decides.
\<close>

lemma waitfor_trace:
  assumes "state params = Some st" "toLowerCase st \<in> {''ready'', ''serviceready'', ''off''}"
  shows "waitfor params rs =
           concat (map (\<lambda>_. [Request params, SetTimeout INTERVAL])
                       (takeWhile (retries (toLowerCase st)) rs))
           @ Request params #
             (case dropWhile (retries (toLowerCase st)) rs of
                [] \<Rightarrow> []
              | Failed err # _ \<Rightarrow> [Callback (Inl err)]
              | Answered mach # _ \<Rightarrow> [Callback (Inr (the mach))])"
proof (induction rs)
  case Nil
  show ?case by (simp add: waitfor_legal_Nil [OF assms])
next
  case (Cons r rs)
  show ?case
  proof (cases r)
    case (Failed err)
    then show ?thesis by (simp add: waitfor_legal_Cons [OF assms])
  next
    case (Answered mach)
    then show ?thesis using Cons.IH by (simp add: waitfor_legal_Cons [OF assms])
  qed
qed

text \<open>
  C3, as the claim states it, fails: the desired state is lower-cased, the state of the
  queried record is not. With desired state \<open>off\<close> and a record in state \<open>Off\<close>, equal
  when letter case is ignored, the poller arms the timer and queries again.
\<close>

theorem waitfor_case_counterexample:
  "toLowerCase ''Off'' = toLowerCase ''off''
   \<and> waitfor \<lparr>machineId = ''ps1'', state = Some ''off''\<rparr>
       [Answered (Some \<lparr>machine_id = ''ps1'', machine_state = Some ''Off''\<rparr>)] =
     [Request \<lparr>machineId = ''ps1'', state = Some ''off''\<rparr>, SetTimeout 5000,
      Request \<lparr>machineId = ''ps1'', state = Some ''off''\<rparr>]"
  by (simp add: waitfor.simps state_matches_def lower_off lower_Off INTERVAL_def Let_def)

text \<open>
  C3, amended. For a legal desired state \<open>d\<close> and a queried record in state \<open>s\<close>, the
  poller treats them as matching exactly when \<open>s\<close> is the lower-cased \<open>d\<close>, character
  for character: then it ends with the record; otherwise it arms the timer with the
  interval and queries again.
\<close>

theorem waitfor_step:
  assumes "state params = Some d" "toLowerCase d \<in> {''ready'', ''serviceready'', ''off''}"
  shows "waitfor params (Answered (Some m) # rest) =
           (if machine_state m = Some (toLowerCase d)
            then [Request params, Callback (Inr m)]
            else Request params # SetTimeout INTERVAL # waitfor params rest)"
  by (simp add: waitfor_legal_Cons [OF assms] state_matches_def)

theorem waitfor_step_witness:
  "waitfor \<lparr>machineId = ''ps1'', state = Some ''ServiceReady''\<rparr>
     [Answered (Some \<lparr>machine_id = ''ps1'', machine_state = Some ''serviceready''\<rparr>)] =
   [Request \<lparr>machineId = ''ps1'', state = Some ''ServiceReady''\<rparr>,
    Callback (Inr \<lparr>machine_id = ''ps1'', machine_state = Some ''serviceready''\<rparr>)]"
  using waitfor_step [of "\<lparr>machineId = ''ps1'', state = Some ''ServiceReady''\<rparr>" "''ServiceReady''"
      "\<lparr>machine_id = ''ps1'', machine_state = Some ''serviceready''\<rparr>" "[]"]
  by (simp add: lower_ServiceReady)

text \<open>
  C4. A desired state that is missing, or that lower-cased is none of \<open>off\<close>,
  \<open>serviceready\<close>, \<open>ready\<close>, makes the poller call back at once with an input error,
  whatever the server would answer: no query is sent.
\<close>

theorem waitfor_invalid_state:
  assumes "\<forall>st. state params = Some st \<longrightarrow>
             toLowerCase st \<notin> {''off'', ''serviceready'', ''ready''}"
  shows "waitfor params rs =
           [Callback (Inl (Error (if state params = None \<or> state params = Some []
                                  then ''Missing required parameter state''
                                  else ''state must be either off, serviceready, or ready'')))]
         \<and> requests (waitfor params rs) = 0"
proof -
  from assms have "\<forall>st. state params = Some st \<longrightarrow>
      toLowerCase st \<notin> {''ready'', ''serviceready'', ''off''}"
    by auto
  from waitfor_illegal [OF this] show ?thesis by (simp add: requests_def)
qed

theorem waitfor_invalid_state_witness:
  "toLowerCase ''running'' \<notin> {''off'', ''serviceready'', ''ready''}
   \<and> waitfor \<lparr>machineId = ''ps1'', state = Some ''running''\<rparr>
       [Answered (Some \<lparr>machine_id = ''ps1'', machine_state = Some ''running''\<rparr>)] =
     [Callback (Inl (Error ''state must be either off, serviceready, or ready''))]
   \<and> requests (waitfor \<lparr>machineId = ''ps1'', state = Some ''running''\<rparr>
       [Answered (Some \<lparr>machine_id = ''ps1'', machine_state = Some ''running''\<rparr>)]) = 0"
  using waitfor_invalid_state [of "\<lparr>machineId = ''ps1'', state = Some ''running''\<rparr>"
      "[Answered (Some \<lparr>machine_id = ''ps1'', machine_state = Some ''running''\<rparr>)]"]
  by (simp add: lower_running requests_def)

text \<open>
  C5. With a legal desired state, a query that fails after any number of responses that
  asked for a retry hands its error to the caller and ends the run: the run has one query
  more than retries, whatever the server would have answered afterwards. A first
  response that is a failure or shows the target state arms no timer: only a response
  without error that does not show the target state makes the poller query again.
\<close>

theorem waitfor_transport_error:
  assumes "state params = Some st" "toLowerCase st \<in> {''ready'', ''serviceready'', ''off''}"
    and "list_all (retries (toLowerCase st)) pre"
  shows "waitfor params (pre @ Failed err # rest) =
           concat (map (\<lambda>_. [Request params, SetTimeout INTERVAL]) pre)
           @ [Request params, Callback (Inl err)]
         \<and> requests (waitfor params (pre @ Failed err # rest)) = length pre + 1
         \<and> (\<forall>r rs. \<not> retries (toLowerCase st) r \<longrightarrow>
               SetTimeout INTERVAL \<notin> set (waitfor params (r # rs)))"
proof (intro conjI allI impI)
  from assms(3) have all: "\<forall>r\<in>set pre. retries (toLowerCase st) r"
    by (simp add: list_all_iff)
  have tw: "takeWhile (retries (toLowerCase st)) (pre @ Failed err # rest) = pre"
    using all by simp
  have dw: "dropWhile (retries (toLowerCase st)) (pre @ Failed err # rest) = Failed err # rest"
    using all by simp
  show eq: "waitfor params (pre @ Failed err # rest) =
           concat (map (\<lambda>_. [Request params, SetTimeout INTERVAL]) pre)
           @ [Request params, Callback (Inl err)]"
    by (simp add: waitfor_trace [OF assms(1,2)] tw dw)
  have "requests (concat (map (\<lambda>_. [Request params, SetTimeout INTERVAL]) xs)) = length xs"
    for xs :: "response list"
    by (induction xs) (simp_all add: requests_def)
  then show "requests (waitfor params (pre @ Failed err # rest)) = length pre + 1"
    by (simp add: eq) (simp add: requests_def)
next
  fix r rs
  assume "\<not> retries (toLowerCase st) r"
  then show "SetTimeout INTERVAL \<notin> set (waitfor params (r # rs))"
    by (cases r) (simp_all add: waitfor_legal_Cons [OF assms(1,2)])
qed

theorem waitfor_transport_error_witness:
  "waitfor \<lparr>machineId = ''ps1'', state = Some ''ready''\<rparr>
     [Answered (Some \<lparr>machine_id = ''ps1'', machine_state = Some ''starting''\<rparr>),
      Failed (Error ''ECONNRESET''),
      Answered (Some \<lparr>machine_id = ''ps1'', machine_state = Some ''ready''\<rparr>)] =
   [Request \<lparr>machineId = ''ps1'', state = Some ''ready''\<rparr>, SetTimeout 5000,
    Request \<lparr>machineId = ''ps1'', state = Some ''ready''\<rparr>,
    Callback (Inl (Error ''ECONNRESET''))]"
  using waitfor_transport_error [of "\<lparr>machineId = ''ps1'', state = Some ''ready''\<rparr>" "''ready''"
      "[Answered (Some \<lparr>machine_id = ''ps1'', machine_state = Some ''starting''\<rparr>)]"
      "Error ''ECONNRESET''"
      "[Answered (Some \<lparr>machine_id = ''ps1'', machine_state = Some ''ready''\<rparr>)]"]
  by (simp add: lower_ready state_matches_def INTERVAL_def)

text \<open>
  C6. Desired state \<open>off\<close>, and a server that answers \<open>starting\<close> and then \<open>off\<close>: the
  poller sends a query, arms the timer with 5000 ms once the first response is in, sends
  the second query when it fires, and calls back with the second record. Two queries.
\<close>

theorem waitfor_off_after_starting:
  "waitfor \<lparr>machineId = ''ps1'', state = Some ''off''\<rparr>
     [Answered (Some \<lparr>machine_id = ''ps1'', machine_state = Some ''starting''\<rparr>),
      Answered (Some \<lparr>machine_id = ''ps1'', machine_state = Some ''off''\<rparr>)] =
   [Request \<lparr>machineId = ''ps1'', state = Some ''off''\<rparr>,
    SetTimeout 5000,
    Request \<lparr>machineId = ''ps1'', state = Some ''off''\<rparr>,
    Callback (Inr \<lparr>machine_id = ''ps1'', machine_state = Some ''off''\<rparr>)]
   \<and> requests (waitfor \<lparr>machineId = ''ps1'', state = Some ''off''\<rparr>
     [Answered (Some \<lparr>machine_id = ''ps1'', machine_state = Some ''starting''\<rparr>),
      Answered (Some \<lparr>machine_id = ''ps1'', machine_state = Some ''off''\<rparr>)]) = 2"
  by (simp add: waitfor.simps state_matches_def lower_off INTERVAL_def requests_def Let_def)

subsection \<open>The size of a directory tree\<close>

text \<open>Below \<open>2^53\<close> the sums of JavaScript are the exact sums.\<close>

lemma round_double_exact: "n < 2 ^ 53 \<Longrightarrow> round_double n = n"
  by (simp add: round_double_def)

lemma js_add_exact: "a + b < 2 ^ 53 \<Longrightarrow> js_add a b = a + b"
  by (simp add: js_add_def round_double_exact)

lemma foldl_js_add: "a + sum_list xs < 2 ^ 53 \<Longrightarrow> foldl js_add a xs = a + sum_list xs"
proof (induction xs arbitrary: a)
  case Nil
  show ?case by simp
next
  case (Cons x xs)
  from Cons.prems have "a + x < 2 ^ 53" by simp
  then have "js_add a x = a + x" by (rule js_add_exact)
  moreover from Cons.prems have "(a + x) + sum_list xs < 2 ^ 53" by (simp add: add.assoc)
  ultimately show ?case using Cons.IH [of "a + x"] by (simp add: add.assoc)
qed

lemma unhidden_snoc: "unhidden (stem @ [name]) \<longleftrightarrow> unhidden stem \<and> \<not> excluded name"
  by (simp add: unhidden_def)

text \<open>Below an excluded name nothing is counted and no failure is met.\<close>

lemma hidden_entries:
  "\<not> unhidden stem \<Longrightarrow> filter (\<lambda>e. unhidden (fst e)) (entries stem t) = []"
  by (induction t arbitrary: stem) (simp_all add: unhidden_snoc filter_concat)

lemma hidden_failures:
  "\<not> unhidden stem \<Longrightarrow> filter (\<lambda>e. unhidden (fst e)) (failures stem t) = []"
  by (induction t arbitrary: stem) (simp_all add: unhidden_snoc filter_concat)

lemma counted_below_hidden: "\<not> unhidden stem \<Longrightarrow> counted_below stem t = 0"
  by (simp add: counted_below_def hidden_entries)

lemma failures_below_hidden: "\<not> unhidden stem \<Longrightarrow> failures_below stem t = []"
  by (simp add: failures_below_def hidden_failures)

lemma counted_below_hidden_fun: "\<not> unhidden stem \<Longrightarrow> counted_below stem = (\<lambda>t. 0)"
  by (rule ext) (simp add: counted_below_hidden)

lemma failures_below_hidden_fun: "\<not> unhidden stem \<Longrightarrow> failures_below stem = (\<lambda>t. [])"
  by (rule ext) (simp add: failures_below_hidden)

lemma counted_below_fun:
  "counted_below stem =
     (\<lambda>t. sum_list (map snd (filter (\<lambda>e. unhidden (fst e)) (entries stem t))))"
  by (rule ext) (simp add: counted_below_def)

lemma failures_below_fun:
  "failures_below stem = (\<lambda>t. filter (\<lambda>e. unhidden (fst e)) (failures stem t))"
  by (rule ext) (simp add: failures_below_def)

lemma concat_map_Nil: "concat (map (\<lambda>t. []) xs) = []"
  by (induction xs) simp_all

lemma sum_list_snd_concat:
  "sum_list (map snd (concat xss)) = sum_list (map (\<lambda>xs. sum_list (map snd xs)) xss)"
  by (induction xss) simp_all

lemma counted_below_Dir:
  "counted_below stem (Dir name sz paths) =
     (if unhidden (stem @ [name]) then sz else 0)
     + sum_list (map (counted_below (stem @ [name])) paths)"
  by (simp add: counted_below_fun filter_concat sum_list_snd_concat comp_def)

lemma failures_below_Dir:
  "failures_below stem (Dir name sz paths) =
     concat (map (failures_below (stem @ [name])) paths)"
  by (simp add: failures_below_fun filter_concat comp_def)

text \<open>A run that meets no failure and stays below \<open>2^53\<close> returns the exact sum.\<close>

lemma directorySize_map_sizes:
  assumes "\<And>p. p \<in> set ps \<Longrightarrow> directorySize p 0 = Inr (C p)"
  shows "directorySize_map ps = Inr (map C ps)"
  using assms by (induction ps) simp_all

lemma directorySize_below:
  "unhidden stem \<Longrightarrow> failures_below stem t = [] \<Longrightarrow>
   size0 + counted_below stem t < 2 ^ 53 \<Longrightarrow>
   directorySize t size0 = Inr (size0 + counted_below stem t)"
proof (induction t arbitrary: stem size0)
  case (File name sz)
  then show ?case
    by (cases "excluded name") (simp_all add: counted_below_def unhidden_snoc js_add_exact)
next
  case (NoStat name err)
  then show ?case
    by (simp add: counted_below_def failures_below_def unhidden_snoc split: if_splits)
next
  case (NoList name sz err)
  then show ?case
    by (simp add: counted_below_def failures_below_def unhidden_snoc split: if_splits)
next
  case (Dir name sz paths)
  show ?case
  proof (cases "excluded name")
    case True
    then have "\<not> unhidden (stem @ [name])" by (simp add: unhidden_snoc)
    then show ?thesis using True
      by (simp add: counted_below_Dir counted_below_hidden_fun)
  next
    case False
    with Dir.prems have un: "unhidden (stem @ [name])" by (simp add: unhidden_snoc)
    have nofail: "failures_below (stem @ [name]) p = []" if "p \<in> set paths" for p
      using Dir.prems(2) that by (simp add: failures_below_Dir)
    have bound: "size0 + sz + sum_list (map (counted_below (stem @ [name])) paths) < 2 ^ 53"
      using Dir.prems(3) un by (simp add: counted_below_Dir)
    have small: "0 + counted_below (stem @ [name]) p < 2 ^ 53" if "p \<in> set paths" for p
    proof -
      have "counted_below (stem @ [name]) p
            \<le> sum_list (map (counted_below (stem @ [name])) paths)"
        using that by (simp add: member_le_sum_list)
      with bound show ?thesis by simp
    qed
    have each: "directorySize p 0 = Inr (counted_below (stem @ [name]) p)"
      if "p \<in> set paths" for p
      using Dir.IH [OF that un nofail [OF that] small [OF that]] by simp
    have sizes: "directorySize_map paths = Inr (map (counted_below (stem @ [name])) paths)"
      using each by (rule directorySize_map_sizes)
    have "js_add size0 sz = size0 + sz"
      using bound by (simp add: js_add_exact)
    moreover have "foldl js_add 0 (map (counted_below (stem @ [name])) paths)
          = sum_list (map (counted_below (stem @ [name])) paths)"
      using bound foldl_js_add [of 0 "map (counted_below (stem @ [name])) paths"] by simp
    moreover have "js_add (size0 + sz) (sum_list (map (counted_below (stem @ [name])) paths))
          = size0 + sz + sum_list (map (counted_below (stem @ [name])) paths)"
      using bound by (simp add: js_add_exact)
    ultimately show ?thesis using False un
      by (simp add: sizes counted_below_Dir)
  qed
qed

text \<open>Listing the entries in another order changes neither the sum nor whether a failure is met.\<close>

lemma map_eq_of_list_all2:
  "list_all2 (\<lambda>a b. g b = g a) xs ys \<Longrightarrow> map g ys = map g xs"
  by (induction rule: list_all2_induct) simp_all

lemma concat_empty_of_list_all2:
  "list_all2 (\<lambda>a b. (F b = []) = (F a = [])) xs ys \<Longrightarrow>
   (concat (map F ys) = []) = (concat (map F xs) = [])"
  by (induction rule: list_all2_induct) simp_all

lemma reorder_below:
  "reorder t u \<Longrightarrow>
   counted_below stem u = counted_below stem t
   \<and> (failures_below stem u = [] \<longleftrightarrow> failures_below stem t = [])"
proof (induction arbitrary: stem rule: reorder.induct)
  case (same t)
  show ?case by simp
next
  case (permute paths' paths name sz)
  have "sum_mset (image_mset (counted_below (stem @ [name])) (mset paths'))
        = sum_mset (image_mset (counted_below (stem @ [name])) (mset paths))"
    using permute by simp
  then have sum: "sum_list (map (counted_below (stem @ [name])) paths')
        = sum_list (map (counted_below (stem @ [name])) paths)"
    by (simp flip: sum_mset_sum_list)
  have "set paths' = set paths" using permute by (rule mset_eq_setD)
  then show ?case by (simp add: counted_below_Dir failures_below_Dir sum)
next
  case (inside paths paths' name sz)
  have c: "list_all2 (\<lambda>a b. counted_below (stem @ [name]) b = counted_below (stem @ [name]) a)
             paths paths'"
    using inside by (rule list_all2_mono) simp
  have f: "list_all2 (\<lambda>a b. (failures_below (stem @ [name]) b = [])
                            = (failures_below (stem @ [name]) a = [])) paths paths'"
    using inside by (rule list_all2_mono) simp
  show ?case
    by (simp only: counted_below_Dir failures_below_Dir map_eq_of_list_all2 [OF c]
        concat_empty_of_list_all2 [OF f])
next
  case (step t u v)
  then show ?case by simp
qed

text \<open>
  A run fails exactly when an entry that is visited fails, and then any of their errors
  may be the one the callback gets.
\<close>

lemma directorySize_map_errors:
  assumes "\<And>p. p \<in> set ps \<Longrightarrow>
             (case directorySize p 0 of
                Inl errs \<Rightarrow> errs = F p \<and> F p \<noteq> []
              | Inr n \<Rightarrow> F p = [])"
  shows "case directorySize_map ps of
           Inl errs \<Rightarrow> errs = concat (map F ps) \<and> concat (map F ps) \<noteq> []
         | Inr ss \<Rightarrow> concat (map F ps) = []"
  using assms
proof (induction ps)
  case Nil
  show ?case by simp
next
  case (Cons p ps)
  have first: "case directorySize p 0 of
                Inl errs \<Rightarrow> errs = F p \<and> F p \<noteq> []
              | Inr n \<Rightarrow> F p = []"
    using Cons.prems by simp
  have others: "case directorySize_map ps of
           Inl errs \<Rightarrow> errs = concat (map F ps) \<and> concat (map F ps) \<noteq> []
         | Inr ss \<Rightarrow> concat (map F ps) = []"
    using Cons.IH Cons.prems by simp
  show ?case
    using first others
    by (cases "directorySize p 0"; cases "directorySize_map ps")
      (simp_all del: concat_eq_Nil_conv)
qed

lemma directorySize_errors:
  "unhidden stem \<Longrightarrow>
   (case directorySize t size0 of
      Inl errs \<Rightarrow> errs = map snd (failures_below stem t) \<and> failures_below stem t \<noteq> []
    | Inr n \<Rightarrow> failures_below stem t = [])"
proof (induction t arbitrary: stem size0)
  case (File name sz)
  then show ?case by (simp add: failures_below_def)
next
  case (NoStat name err)
  then show ?case by (simp add: failures_below_def unhidden_snoc)
next
  case (NoList name sz err)
  then show ?case by (simp add: failures_below_def unhidden_snoc)
next
  case (Dir name sz paths)
  show ?case
  proof (cases "excluded name")
    case True
    then have "\<not> unhidden (stem @ [name])" by (simp add: unhidden_snoc)
    then show ?thesis using True
      by (simp add: failures_below_Dir failures_below_hidden_fun concat_map_Nil)
  next
    case False
    with Dir.prems have un: "unhidden (stem @ [name])" by (simp add: unhidden_snoc)
    have each: "case directorySize p 0 of
                  Inl errs \<Rightarrow> errs = map snd (failures_below (stem @ [name]) p)
                      \<and> map snd (failures_below (stem @ [name]) p) \<noteq> []
                | Inr n \<Rightarrow> map snd (failures_below (stem @ [name]) p) = []"
      if "p \<in> set paths" for p
      using Dir.IH [OF that un, of 0] by (simp split: sum.splits)
    have "case directorySize_map paths of
           Inl errs \<Rightarrow> errs = concat (map (\<lambda>p. map snd (failures_below (stem @ [name]) p)) paths)
               \<and> concat (map (\<lambda>p. map snd (failures_below (stem @ [name]) p)) paths) \<noteq> []
         | Inr ss \<Rightarrow> concat (map (\<lambda>p. map snd (failures_below (stem @ [name]) p)) paths) = []"
      using each by (rule directorySize_map_errors)
    moreover have "concat (map (\<lambda>p. map snd (failures_below (stem @ [name]) p)) paths)
        = map snd (concat (map (failures_below (stem @ [name])) paths))"
      by (simp add: map_concat comp_def)
    ultimately have "case directorySize_map paths of
           Inl errs \<Rightarrow> errs = map snd (concat (map (failures_below (stem @ [name])) paths))
               \<and> concat (map (failures_below (stem @ [name])) paths) \<noteq> []
         | Inr ss \<Rightarrow> concat (map (failures_below (stem @ [name])) paths) = []"
      by (simp split: sum.splits del: concat_eq_Nil_conv)
    then show ?thesis using False
      by (cases "directorySize_map paths")
        (simp_all add: failures_below_Dir del: concat_eq_Nil_conv)
  qed
qed

text \<open>Sums that the doubles round.\<close>

lemma bitlen_54:
  "bitlen 9007199254740992 = 54" "bitlen 9007199254740993 = 54" "bitlen 9007199254740994 = 54"
  by (simp_all add: bitlen.simps)

lemma round_double_examples:
  "round_double 9007199254740992 = 9007199254740992"
  "round_double 9007199254740993 = 9007199254740992"
  "round_double 9007199254740994 = 9007199254740994"
  by (simp_all add: round_double_def bitlen_54 Let_def)

lemma js_add_examples:
  "js_add 0 0 = 0" "js_add 0 1 = 1" "js_add 1 1 = 2"
  "js_add 0 5 = 5" "js_add 0 10 = 10" "js_add 0 4096 = 4096" "js_add 4096 10 = 4106"
  "js_add 0 9007199254740992 = 9007199254740992"
  "js_add 9007199254740992 1 = 9007199254740992"
  "js_add 2 9007199254740992 = 9007199254740994"
  "js_add 0 9007199254740994 = 9007199254740994"
  "js_add 0 (Suc 0) = Suc 0" "js_add (Suc 0) (Suc 0) = 2"
  "js_add 9007199254740992 (Suc 0) = 9007199254740992"
  by (simp_all add: js_add_def round_double_examples) (simp_all add: round_double_def)

text \<open>
  C2, as the claim states it, fails three times. A directory's own size is added: a
  directory of 4096 bytes that holds one file of 10 bytes has size 4106, not 10. A file
  below an excluded directory is not added, whatever its name: \<open>.git/config\<close> of 5 bytes
  adds nothing. And from \<open>2^53\<close> on the sums are rounded, so that the order of the
  entries shows: one file of \<open>2^53\<close> bytes and two of 1 byte add up to \<open>2^53\<close> in this
  order and to \<open>2^53 + 2\<close> with the large file last.
\<close>

theorem directorySize_file_sum_counterexample:
  "directorySize (Dir ''ws'' 4096 [File ''a.txt'' 10]) 0 = Inr 4106
   \<and> file_sum (Dir ''ws'' 4096 [File ''a.txt'' 10]) = 10
   \<and> directorySize (Dir ''ws'' 0 [Dir ''.git'' 0 [File ''config'' 5]]) 0 = Inr 0
   \<and> file_sum (Dir ''ws'' 0 [Dir ''.git'' 0 [File ''config'' 5]]) = 5
   \<and> directorySize
        (Dir ''ws'' 0 [File ''a'' 9007199254740992, File ''b'' 1, File ''c'' 1]) 0
       = Inr 9007199254740992
   \<and> directorySize
        (Dir ''ws'' 0 [File ''b'' 1, File ''c'' 1, File ''a'' 9007199254740992]) 0
       = Inr 9007199254740994"
  by (simp add: excluded_def file_sum_def js_add_examples)

text \<open>
  C2, amended. For a tree in which every visited entry can be stat'ed and listed and
  whose counted sizes add up to less than \<open>2^53\<close>, the size computation returns the sum
  of the own sizes of all entries of the tree, directories included, that have no excluded
  name on their path from the root; and it returns the same for the tree with the entries
  of any of its directories listed in another order.
\<close>

theorem directorySize_counts:
  assumes "visited_failures t = []" and "counted_size t < 2 ^ 53"
  shows "directorySize t 0 = Inr (counted_size t)
         \<and> (\<forall>u. reorder t u \<longrightarrow> directorySize u 0 = Inr (counted_size t))"
proof (intro conjI allI impI)
  have un: "unhidden []" by (simp add: unhidden_def)
  from assms show "directorySize t 0 = Inr (counted_size t)"
    using directorySize_below [OF un, of t 0]
    by (simp add: visited_failures_def counted_size_def)
  fix u
  assume r: "reorder t u"
  from reorder_below [OF r, of "[]"] assms
  have "failures_below [] u = []" and "0 + counted_below [] u < 2 ^ 53"
    and "counted_below [] u = counted_size t"
    by (simp_all add: visited_failures_def counted_size_def)
  then show "directorySize u 0 = Inr (counted_size t)"
    using directorySize_below [OF un, of u 0] by simp
qed

theorem directorySize_counts_witness:
  "visited_failures (Dir ''ws'' 4096 [File ''a'' 10, File ''.gitignore'' 1000, File ''b'' 20])
       = []
   \<and> counted_size (Dir ''ws'' 4096 [File ''a'' 10, File ''.gitignore'' 1000, File ''b'' 20])
       = 4126
   \<and> reorder (Dir ''ws'' 4096 [File ''a'' 10, File ''.gitignore'' 1000, File ''b'' 20])
           (Dir ''ws'' 4096 [File ''b'' 20, File ''a'' 10, File ''.gitignore'' 1000])
   \<and> directorySize (Dir ''ws'' 4096 [File ''a'' 10, File ''.gitignore'' 1000, File ''b'' 20]) 0
       = Inr 4126
   \<and> directorySize (Dir ''ws'' 4096 [File ''b'' 20, File ''a'' 10, File ''.gitignore'' 1000]) 0
       = Inr 4126"
proof -
  let ?t = "Dir ''ws'' 4096 [File ''a'' 10, File ''.gitignore'' 1000, File ''b'' 20]"
  let ?u = "Dir ''ws'' 4096 [File ''b'' 20, File ''a'' 10, File ''.gitignore'' 1000]"
  have r: "reorder ?t ?u"
    by (rule reorder.permute) simp
  have v: "visited_failures ?t = []"
    by (simp add: visited_failures_def failures_below_def)
  have c: "counted_size ?t = 4126"
    by (simp add: counted_size_def counted_below_def unhidden_def excluded_def)
  have b: "counted_size ?t < 2 ^ 53"
    by (simp add: c)
  note sum = directorySize_counts [OF v b]
  from sum have d1: "directorySize ?t 0 = Inr 4126"
    by (simp only: c)
  from sum r have d2: "directorySize ?u 0 = Inr 4126"
    by (simp only: c)
  from v c r d1 d2 show ?thesis by blast
qed

subsection \<open>The exclusions of the size computation and of the archive\<close>

lemma parse_ignore:
  "parse_glob ''**/.git/**'' = [GlobStar, Lit ''.git'', GlobStar]"
  "parse_glob ''**/.git'' = [GlobStar, Lit ''.git'']"
  "parse_glob ''**/.gitignore'' = [GlobStar, Lit ''.gitignore'']"
  "parse_glob ''**/*'' = [GlobStar, Star]"
  by (simp_all add: parse_glob_def)

lemma match_last: "glob_match [GlobStar, Lit s] path \<longleftrightarrow> path \<noteq> [] \<and> last path = s"
proof (induction path)
  case Nil
  show ?case by simp
next
  case (Cons x xs)
  show ?case by (cases xs) (use Cons in auto)
qed

lemma match_under:
  "glob_match [GlobStar, Lit s, GlobStar] path \<longleftrightarrow> path \<noteq> [] \<and> s \<in> set (butlast path)"
proof (induction path)
  case Nil
  show ?case by simp
next
  case (Cons x xs)
  show ?case by (cases xs) (use Cons in auto)
qed

text \<open>What the three ignore patterns leave out: \<open>.git\<close> anywhere, \<open>.gitignore\<close> as the last name.\<close>

lemma ignored_iff:
  "list_ex (\<lambda>pat. glob_match (parse_glob pat) path) glob_ignore
   \<longleftrightarrow> path \<noteq> [] \<and> (''.git'' \<in> set path \<or> last path = ''.gitignore'')"
proof (cases path rule: rev_cases)
  case Nil
  then show ?thesis by (simp add: parse_ignore glob_ignore_def)
next
  case (snoc ys y)
  have "list_ex (\<lambda>pat. glob_match (parse_glob pat) path) glob_ignore
    \<longleftrightarrow> glob_match [GlobStar, Lit ''.git'', GlobStar] path
        \<or> glob_match [GlobStar, Lit ''.git''] path
        \<or> glob_match [GlobStar, Lit ''.gitignore''] path"
    by (simp add: parse_ignore glob_ignore_def)
  also have "\<dots> \<longleftrightarrow> ''.git'' \<in> set ys \<or> y = ''.git'' \<or> y = ''.gitignore''"
    unfolding match_last match_under using snoc by simp
  also have "\<dots> \<longleftrightarrow> path \<noteq> [] \<and> (''.git'' \<in> set path \<or> last path = ''.gitignore'')"
    using snoc by auto
  finally show ?thesis .
qed

text \<open>
  The two exclusions agree on every path below the workspace that does not pass through
  a directory named \<open>.gitignore\<close>. The paths are relative to the workspace: its own
  name, which only the size computation looks at, is not part of them.
\<close>

lemma exclusions_agree:
  assumes "path \<noteq> []" "''.gitignore'' \<notin> set (butlast path)"
  shows "unhidden path \<longleftrightarrow> \<not> list_ex (\<lambda>pat. glob_match (parse_glob pat) path) glob_ignore"
proof (cases path rule: rev_cases)
  case Nil
  with assms show ?thesis by simp
next
  case (snoc ys y)
  with assms show ?thesis
    by (auto simp add: ignored_iff unhidden_def excluded_def list_all_iff)
qed

text \<open>
  C7 fails on the code. The workspace holds a directory named \<open>.gitignore\<close> with a file
  \<open>x\<close> of 7 bytes in it. The size computation stops at the directory and counts nothing
  below it; no ignore pattern of the archive matches \<open>.gitignore/x\<close>, which is appended.
\<close>

theorem gitignore_directory_divergence:
  "directorySize (Dir ''ws'' 0 [Dir ''.gitignore'' 0 [File ''x'' 7]]) 0 = Inr 0
   \<and> archive_glob ''**/*'' glob_ignore (Dir ''ws'' 0 [Dir ''.gitignore'' 0 [File ''x'' 7]])
       = [[''.gitignore'', ''x'']]"
  by (simp add: excluded_def archive_glob_def parse_ignore glob_ignore_def js_add_def
      round_double_def)

subsection \<open>Packing and uploading the workspace\<close>

lemma invoked_ifCli: "invoked (ifCliPrintErrorOnly e err) = []"
  by (simp add: ifCliPrintErrorOnly_def)

lemma invoked_append: "invoked (xs @ ys) = invoked xs @ invoked ys"
  by (induction xs rule: invoked.induct) simp_all

lemma output_close_gate:
  "stat_closed e zip_file = Some (k, z) \<Longrightarrow>
   output_close e zip_file =
     (if z > 104857600 then ifCliPrintErrorOnly e (size_error zip_file)
      else [Method (Some zip_file) (Some (basename zip_file))])"
  by (simp add: output_close_def getFilesizeInBytes_def MAX_UPLOAD_SIZE_def)

lemma invoked_archive_run:
  "stat_closed e zip_file = Some (k, z) \<Longrightarrow>
   invoked (archive_run e zip_file evs) =
     (if reaches_close evs \<and> \<not> z > 104857600
      then [Method (Some zip_file) (Some (basename zip_file))] else [])"
  by (induction evs rule: reaches_close.induct)
    (simp_all add: output_close_gate invoked_ifCli)

lemma invoked_zipFunc:
  "stat_closed e zip_file = Some (k, z) \<Longrightarrow>
   invoked (pre @ zipFunc e workspace kind zip_file) =
     invoked pre @
     (if reaches_close (events e) \<and> \<not> z > 104857600
      then [Method (Some zip_file) (Some (basename zip_file))] else [])"
  by (simp add: invoked_append zipFunc_def invoked_archive_run)

text \<open>
  \<open>create\<close> on a local workspace that exists as a file or a directory: a zip or gzip
  file goes through the size check; anything else is packed, unless an earlier archive of
  the same name is in the way and cannot be removed.
\<close>

lemma create_local:
  assumes "workspace0 \<noteq> ''/''" "workspace0 \<noteq> ''none''"
    and "\<not> startsWith ''https://'' workspace0" "\<not> startsWith ''git+https://'' workspace0"
    and "expandHomeDir (env_home e) (Some workspace0) = Inr (Some workspace)"
    and "stat e workspace = Some (kind, sz)" "kind \<noteq> Other"
  shows "create e workspace0 =
    (if \<not> endsWith ''.zip'' workspace \<and> \<not> endsWith ''.gz'' workspace then
       (if stat e (path_resolve (cwd e) [tmpdir e, basename workspace @ ''.zip'']) \<noteq> None
        then (case unlink e (path_resolve (cwd e) [tmpdir e, basename workspace @ ''.zip'']) of
                Some err \<Rightarrow> [Throw err]
              | None \<Rightarrow>
                  Unlink (path_resolve (cwd e) [tmpdir e, basename workspace @ ''.zip'']) #
                  (if kind \<noteq> Directory \<and> cli e
                   then [ConsoleLog (''Zipping file '' @ basename workspace)] else [])
                  @ zipFunc e workspace kind
                      (path_resolve (cwd e) [tmpdir e, basename workspace @ ''.zip'']))
        else (if kind \<noteq> Directory \<and> cli e
              then [ConsoleLog (''Zipping file '' @ basename workspace)] else [])
             @ zipFunc e workspace kind
                 (path_resolve (cwd e) [tmpdir e, basename workspace @ ''.zip'']))
     else if sz > 104857600 then ifCliPrintErrorOnly e (size_error workspace)
     else [Method (Some workspace) (Some (basename workspace))])"
  using assms
  by (simp add: create_def getFilesizeInBytes_def MAX_UPLOAD_SIZE_def Let_def)





lemma expand_plain: "expandHomeDir h (Some ''/w/a.zip'') = Inr (Some ''/w/a.zip'')"
  "expandHomeDir h (Some ''/w/data.txt'') = Inr (Some ''/w/data.txt'')"
  by (simp_all add: expandHomeDir_def slice_def)

lemma resolve_tmp: "path_resolve ''/w'' [''/tmp'', ''data.txt.zip''] = ''/tmp/data.txt.zip''"
  by (simp add: path_resolve_def isAbsolute_def normalizeString_def normalize_step_def)

lemma basename_examples: "basename ''/w/a.zip'' = ''a.zip''" "basename ''/w/data.txt'' = ''data.txt''"
  "basename ''/tmp/data.txt.zip'' = ''data.txt.zip''"
  by (simp_all add: basename_def)

lemma create_unlink_throws:
  assumes "workspace0 \<noteq> ''/''" "workspace0 \<noteq> ''none''"
    and "\<not> startsWith ''https://'' workspace0" "\<not> startsWith ''git+https://'' workspace0"
    and "expandHomeDir (env_home e) (Some workspace0) = Inr (Some workspace)"
    and "stat e workspace = Some (kind, sz)" "kind \<noteq> Other"
    and "\<not> endsWith ''.zip'' workspace" "\<not> endsWith ''.gz'' workspace"
    and "stat e (path_resolve (cwd e) [tmpdir e, basename workspace @ ''.zip'']) \<noteq> None"
    and "unlink e (path_resolve (cwd e) [tmpdir e, basename workspace @ ''.zip'']) = Some err"
  shows "create e workspace0 = [Throw err]"
  using assms(8-11) by (simp add: create_local [OF assms(1-7)])

text \<open>
  C1. A local workspace that exists as a file or directory. If it is a zip or gzip file,
  \<open>create\<close> rejects it exactly when its size exceeds 104857600 bytes, and otherwise
  makes the one remote invocation, with it. If it has to be packed, the handler of the
  output's close event rejects the archive exactly when its size exceeds 104857600 bytes;
  the whole run makes a remote invocation only through that handler, with the archive,
  and only when the archive is within the limit (and an earlier archive in the way could
  be removed, and the output closed). A rejected file never reaches a remote invocation.
\<close>

theorem upload_gate:
  assumes "workspace0 \<noteq> ''/''" "workspace0 \<noteq> ''none''"
    and "\<not> startsWith ''https://'' workspace0" "\<not> startsWith ''git+https://'' workspace0"
    and "expandHomeDir (env_home e) (Some workspace0) = Inr (Some workspace)"
    and "stat e workspace = Some (kind, sz)" "kind \<noteq> Other"
  shows "(endsWith ''.zip'' workspace \<or> endsWith ''.gz'' workspace \<longrightarrow>
            create e workspace0 =
              (if sz > 104857600 then ifCliPrintErrorOnly e (size_error workspace)
               else [Method (Some workspace) (Some (basename workspace))])
            \<and> invoked (create e workspace0) =
                (if sz > 104857600 then []
                 else [Method (Some workspace) (Some (basename workspace))]))
         \<and> (\<not> endsWith ''.zip'' workspace \<and> \<not> endsWith ''.gz'' workspace
            \<and> stat_closed e (path_resolve (cwd e) [tmpdir e, basename workspace @ ''.zip''])
                = Some (k, z) \<longrightarrow>
            output_close e (path_resolve (cwd e) [tmpdir e, basename workspace @ ''.zip'']) =
              (if z > 104857600
               then ifCliPrintErrorOnly e
                      (size_error (path_resolve (cwd e) [tmpdir e, basename workspace @ ''.zip'']))
               else [Method (Some (path_resolve (cwd e) [tmpdir e, basename workspace @ ''.zip'']))
                       (Some (basename
                          (path_resolve (cwd e) [tmpdir e, basename workspace @ ''.zip''])))])
            \<and> invoked (create e workspace0) =
                (if (stat e (path_resolve (cwd e) [tmpdir e, basename workspace @ ''.zip''])
                       = None
                     \<or> unlink e (path_resolve (cwd e) [tmpdir e, basename workspace @ ''.zip''])
                       = None)
                    \<and> reaches_close (events e) \<and> \<not> z > 104857600
                 then [Method (Some (path_resolve (cwd e) [tmpdir e, basename workspace @ ''.zip'']))
                         (Some (basename
                            (path_resolve (cwd e) [tmpdir e, basename workspace @ ''.zip''])))]
                 else []))"
proof (intro conjI impI)
  assume "endsWith ''.zip'' workspace \<or> endsWith ''.gz'' workspace"
  then show pre: "create e workspace0 =
              (if sz > 104857600 then ifCliPrintErrorOnly e (size_error workspace)
               else [Method (Some workspace) (Some (basename workspace))])"
    by (auto simp add: create_local [OF assms])
  show "invoked (create e workspace0) =
          (if sz > 104857600 then [] else [Method (Some workspace) (Some (basename workspace))])"
    by (simp add: pre invoked_ifCli)
next
  let ?zip = "path_resolve (cwd e) [tmpdir e, basename workspace @ ''.zip'']"
  assume built: "\<not> endsWith ''.zip'' workspace \<and> \<not> endsWith ''.gz'' workspace
            \<and> stat_closed e ?zip = Some (k, z)"
  then have closed: "stat_closed e ?zip = Some (k, z)"
    by simp
  show "output_close e ?zip =
              (if z > 104857600 then ifCliPrintErrorOnly e (size_error ?zip)
               else [Method (Some ?zip) (Some (basename ?zip))])"
    by (rule output_close_gate [OF closed])
  show "invoked (create e workspace0) =
                (if (stat e ?zip = None \<or> unlink e ?zip = None)
                    \<and> reaches_close (events e) \<and> \<not> z > 104857600
                 then [Method (Some ?zip) (Some (basename ?zip))]
                 else [])"
  proof (cases "stat e ?zip = None")
    case True
    with built show ?thesis
      by (simp add: create_local [OF assms] invoked_zipFunc [OF closed])
  next
    case False
    with built show ?thesis
      by (cases "unlink e ?zip")
        (simp_all add: create_local [OF assms] invoked_zipFunc [OF closed])
  qed
qed

theorem upload_gate_witness:
  "create \<lparr>cli = False, env_home = None, tmpdir = ''/tmp'', cwd = ''/w'',
           stat = (\<lambda>p. if p = ''/w/a.zip'' then Some (RegularFile, 104857600) else None),
           unlink = (\<lambda>p. None), events = [], stat_closed = (\<lambda>p. None)\<rparr> ''/w/a.zip''
     = [Method (Some ''/w/a.zip'') (Some ''a.zip'')]
   \<and> create \<lparr>cli = False, env_home = None, tmpdir = ''/tmp'', cwd = ''/w'',
           stat = (\<lambda>p. if p = ''/w/a.zip'' then Some (RegularFile, 104857601) else None),
           unlink = (\<lambda>p. None), events = [], stat_closed = (\<lambda>p. None)\<rparr> ''/w/a.zip''
     = [Cb (Some (Error ''Error: zipped workspace /w/a.zip cannot exceed 104857600 bytes.''))]
   \<and> invoked (create \<lparr>cli = False, env_home = None, tmpdir = ''/tmp'', cwd = ''/w'',
           stat = (\<lambda>p. if p = ''/w/data.txt'' then Some (RegularFile, 12) else None),
           unlink = (\<lambda>p. None), events = [OutputClose],
           stat_closed = (\<lambda>p. if p = ''/tmp/data.txt.zip''
                                then Some (RegularFile, 104857601) else None)\<rparr> ''/w/data.txt'')
     = []
   \<and> invoked (create \<lparr>cli = False, env_home = None, tmpdir = ''/tmp'', cwd = ''/w'',
           stat = (\<lambda>p. if p = ''/w/data.txt'' then Some (RegularFile, 12) else None),
           unlink = (\<lambda>p. None), events = [OutputClose],
           stat_closed = (\<lambda>p. if p = ''/tmp/data.txt.zip''
                                then Some (RegularFile, 104857600) else None)\<rparr> ''/w/data.txt'')
     = [Method (Some ''/tmp/data.txt.zip'') (Some ''data.txt.zip'')]"
proof -
  have l: "''/w/a.zip'' \<noteq> ''/''" "''/w/a.zip'' \<noteq> ''none''"
    "\<not> startsWith ''https://'' ''/w/a.zip''" "\<not> startsWith ''git+https://'' ''/w/a.zip''"
    "''/w/data.txt'' \<noteq> ''/''" "''/w/data.txt'' \<noteq> ''none''"
    "\<not> startsWith ''https://'' ''/w/data.txt''" "\<not> startsWith ''git+https://'' ''/w/data.txt''"
    by (simp_all add: startsWith_def)
  have k: "RegularFile \<noteq> Other" by simp
  have z: "endsWith ''.zip'' ''/w/a.zip''" "\<not> endsWith ''.zip'' ''/w/data.txt''"
    "\<not> endsWith ''.gz'' ''/w/data.txt''"
    by (simp_all add: endsWith_def)
  show ?thesis
    using
      upload_gate [where e = "\<lparr>cli = False, env_home = None, tmpdir = ''/tmp'', cwd = ''/w'',
           stat = (\<lambda>p. if p = ''/w/a.zip'' then Some (RegularFile, 104857600) else None),
           unlink = (\<lambda>p. None), events = [], stat_closed = (\<lambda>p. None)\<rparr>"
           and workspace0 = "''/w/a.zip''"
           and workspace = "''/w/a.zip''" and kind = RegularFile and sz = 104857600,
           OF l(1-4) _ _ k]
      upload_gate [where e = "\<lparr>cli = False, env_home = None, tmpdir = ''/tmp'', cwd = ''/w'',
           stat = (\<lambda>p. if p = ''/w/a.zip'' then Some (RegularFile, 104857601) else None),
           unlink = (\<lambda>p. None), events = [], stat_closed = (\<lambda>p. None)\<rparr>"
           and workspace0 = "''/w/a.zip''"
           and workspace = "''/w/a.zip''" and kind = RegularFile and sz = 104857601,
           OF l(1-4) _ _ k]
      upload_gate [where e = "\<lparr>cli = False, env_home = None, tmpdir = ''/tmp'', cwd = ''/w'',
           stat = (\<lambda>p. if p = ''/w/data.txt'' then Some (RegularFile, 12) else None),
           unlink = (\<lambda>p. None), events = [OutputClose],
           stat_closed = (\<lambda>p. if p = ''/tmp/data.txt.zip''
                                then Some (RegularFile, 104857601) else None)\<rparr>"
           and workspace0 = "''/w/data.txt''"
           and workspace = "''/w/data.txt''" and kind = RegularFile and sz = 12
           and k = RegularFile and z = 104857601,
           OF l(5-8) _ _ k]
      upload_gate [where e = "\<lparr>cli = False, env_home = None, tmpdir = ''/tmp'', cwd = ''/w'',
           stat = (\<lambda>p. if p = ''/w/data.txt'' then Some (RegularFile, 12) else None),
           unlink = (\<lambda>p. None), events = [OutputClose],
           stat_closed = (\<lambda>p. if p = ''/tmp/data.txt.zip''
                                then Some (RegularFile, 104857600) else None)\<rparr>"
           and workspace0 = "''/w/data.txt''"
           and workspace = "''/w/data.txt''" and kind = RegularFile and sz = 12
           and k = RegularFile and z = 104857600,
           OF l(5-8) _ _ k]
    by (simp add: expand_plain z resolve_tmp basename_examples ifCliPrintErrorOnly_def
        size_error_def)
qed



text \<open>
  C8, as the claim states it, fails. An archiver error is written to the console and
  nothing else happens: the callback is not invoked. A warning other than \<open>ENOENT\<close> is
  thrown from the handler: the callback is not invoked either.
\<close>

theorem archive_error_counterexample:
  "create \<lparr>cli = False, env_home = None, tmpdir = ''/tmp'', cwd = ''/w'',
           stat = (\<lambda>p. if p = ''/w/data.txt'' then Some (RegularFile, 12) else None),
           unlink = (\<lambda>p. None),
           events = [ArchiverError ''EIO''], stat_closed = (\<lambda>p. None)\<rparr> ''/w/data.txt''
     = [CreateWriteStream ''/tmp/data.txt.zip'', ArchiveFile ''/w/data.txt'' ''data.txt'',
        Finalize, ConsoleError ''Error while zipping: EIO'']
   \<and> create \<lparr>cli = False, env_home = None, tmpdir = ''/tmp'', cwd = ''/w'',
           stat = (\<lambda>p. if p = ''/w/data.txt'' then Some (RegularFile, 12) else None),
           unlink = (\<lambda>p. None),
           events = [Warning ''EACCES''], stat_closed = (\<lambda>p. None)\<rparr> ''/w/data.txt''
     = [CreateWriteStream ''/tmp/data.txt.zip'', ArchiveFile ''/w/data.txt'' ''data.txt'',
        Finalize, Throw (Error ''EACCES'')]"
  by (simp add: create_def startsWith_def endsWith_def expand_plain resolve_tmp
      basename_examples zipFunc_def Let_def)

text \<open>
  C8, amended. A warning with code \<open>ENOENT\<close> is logged and archiving goes on. Any other
  warning is thrown from its handler, which ends the operation without the caller's
  callback. An archiver error is logged only: it neither ends the operation nor reaches
  the callback. The only error the callback receives from archiving is the rejection of
  an archive over the size limit.
\<close>

theorem archive_failures:
  "archive_run e zip_file (Warning ''ENOENT'' # evs) =
     ConsoleError ''ENOENT'' # archive_run e zip_file evs
   \<and> (code \<noteq> ''ENOENT'' \<longrightarrow>
        archive_run e zip_file (Warning code # evs) = [Throw (Error code)])
   \<and> archive_run e zip_file (ArchiverError msg # evs) =
       ConsoleError (''Error while zipping: '' @ msg) # archive_run e zip_file evs
   \<and> (\<forall>err. Cb (Some err) \<in> set (archive_run e zip_file evs) \<longrightarrow> err = size_error zip_file)"
proof -
  have "Cb (Some err) \<in> set (archive_run e zip_file evs) \<Longrightarrow> err = size_error zip_file"
    for err
    by (induction evs rule: reaches_close.induct)
      (auto simp add: output_close_def ifCliPrintErrorOnly_def split: sum.splits if_splits)
  then show ?thesis by simp
qed

theorem archive_failures_witness:
  "''EACCES'' \<noteq> ''ENOENT''
   \<and> archive_run \<lparr>cli = False, env_home = None, tmpdir = ''/tmp'', cwd = ''/w'',
           stat = (\<lambda>p. None), unlink = (\<lambda>p. None), events = [],
           stat_closed = (\<lambda>p. Some (RegularFile, 104857601))\<rparr> ''/tmp/w.zip''
        [Warning ''EACCES'', OutputClose]
      = [Throw (Error ''EACCES'')]
   \<and> Cb (Some (size_error ''/tmp/w.zip''))
      \<in> set (archive_run \<lparr>cli = False, env_home = None, tmpdir = ''/tmp'', cwd = ''/w'',
           stat = (\<lambda>p. None), unlink = (\<lambda>p. None), events = [],
           stat_closed = (\<lambda>p. Some (RegularFile, 104857601))\<rparr> ''/tmp/w.zip''
           [OutputClose])"
proof -
  let ?e = "\<lparr>cli = False, env_home = None, tmpdir = ''/tmp'', cwd = ''/w'',
           stat = (\<lambda>p. None), unlink = (\<lambda>p. None), events = [],
           stat_closed = (\<lambda>p. Some (RegularFile, 104857601))\<rparr>"
  have n: "''EACCES'' \<noteq> ''ENOENT''" by simp
  have m: "Cb (Some (size_error ''/tmp/w.zip'')) \<in> set (archive_run ?e ''/tmp/w.zip'' [OutputClose])"
    by (simp add: output_close_def getFilesizeInBytes_def MAX_UPLOAD_SIZE_def
        ifCliPrintErrorOnly_def)
  note t = archive_failures [where e = ?e and zip_file = "''/tmp/w.zip''"
      and code = "''EACCES''" and evs = "[OutputClose]" and msg = "''EIO''"]
  from t n have w: "archive_run ?e ''/tmp/w.zip'' [Warning ''EACCES'', OutputClose]
      = [Throw (Error ''EACCES'')]"
    by blast
  from t m have "size_error ''/tmp/w.zip'' = size_error ''/tmp/w.zip''"
    by blast
  with n w m show ?thesis by blast
qed

end
